theory Spec2Isabelle
  imports Main
begin

section \<open>The keyword dialog of \<^verbatim>\<open>src/gui/dialog.py\<close>\<close>

text \<open>
  The dialog shows one widget per argument of a keyword and regenerates the INP code of
  the keyword in a text edit each time a widget emits a signal. The grammar classes
  (\<^verbatim>\<open>model.kom\<close>) and the Qt library are not part of the sources at hand; the
  model keeps of them what \<^verbatim>\<open>dialog.py\<close> reads and writes:
  \<^item> an argument has a name, a form (the name of its widget class), a cross reference
    \<^verbatim>\<open>use\<close>, a default value, the flags \<^verbatim>\<open>required\<close> and \<^verbatim>\<open>newline\<close>, the widget
    that \<^verbatim>\<open>build_widgets\<close> attaches to it and its nested arguments;
  \<^item> of a Qt widget the model keeps the answers of the queries the code makes:
    \<^verbatim>\<open>isEnabled()\<close> of the argument's widget and of its inner control,
    \<^verbatim>\<open>isChecked()\<close>, the current text, the items of a combo box and the state of the
    radio buttons of an \<^verbatim>\<open>Or\<close> group.
  The attributes \<^verbatim>\<open>comment\<close> and \<^verbatim>\<open>readonly\<close> only change the looks of the dialog and
  are left out. The text edit is taken to hold the plain text it was given.
\<close>

subsection \<open>Strings\<close>

definition nl :: string where
  "nl = [CHR 0x0A]"

definition startswith :: "string \<Rightarrow> string \<Rightarrow> bool" where
  "startswith s p = (take (length p) s = p)"

definition endswith :: "string \<Rightarrow> string \<Rightarrow> bool" where
  "endswith s p = (length p \<le> length s \<and> drop (length s - length p) s = p)"

text \<open>\<^verbatim>\<open>s.split(sep)\<close> for a separator of one character.\<close>

fun split_chr :: "char \<Rightarrow> string \<Rightarrow> string list" where
  "split_chr sep [] = [[]]"
| "split_chr sep (c # cs) =
     (if c = sep then [] # split_chr sep cs
      else (case split_chr sep cs of
              [] \<Rightarrow> [[c]]
            | l # ls \<Rightarrow> (c # l) # ls))"

text \<open>
  \<^verbatim>\<open>str.isspace\<close> on the ASCII characters: tab, line feed, vertical tab, form feed,
  carriage return, the four separators 0x1C to 0x1F and the space.
\<close>

definition isspace :: "char \<Rightarrow> bool" where
  "isspace c = (c \<in> set [CHR 0x09, CHR 0x0A, CHR 0x0B, CHR 0x0C, CHR 0x0D,
                          CHR 0x1C, CHR 0x1D, CHR 0x1E, CHR 0x1F, CHR 0x20])"

definition strip :: "string \<Rightarrow> string" where
  "strip s = rev (dropWhile isspace (rev (dropWhile isspace s)))"

subsection \<open>Arguments and widgets\<close>

datatype form =
  Group | HBox | VBox | HOr | VOr | Combo | Text | Line | Int' | Float | Bool
  | SelectFileWidget

datatype error = AttributeError | UnboundLocalError

text \<open>
  What the code reads of a widget. \<open>isEnabled\<close> is \<^verbatim>\<open>a.widget.isEnabled()\<close>;
  \<open>w_isEnabled\<close> is \<^verbatim>\<open>self.w.isEnabled()\<close> of an argument widget and
  \<^verbatim>\<open>self.gbox.isEnabled()\<close> of a \<open>Group\<close>; \<open>isChecked\<close> is that of the check box of a
  \<open>Bool\<close> and of the group box of a \<open>Group\<close>; \<open>ct\<close> is the text of the inner control
  (\<^verbatim>\<open>currentText()\<close>, \<^verbatim>\<open>toPlainText()\<close> or \<^verbatim>\<open>text()\<close>); \<open>label_ct\<close> is the current
  text of the label when the label is a combo box; \<open>items\<close> are the items of a combo box;
  \<open>rb\<close> holds \<^verbatim>\<open>isChecked()\<close> of the radio buttons of an \<open>Or\<close> group, one for each
  nested argument.
\<close>

record widget =
  wform :: form
  isEnabled :: bool
  w_isEnabled :: bool
  isChecked :: bool
  ct :: string
  label_ct :: string
  items :: "string list"
  rb :: "bool list"

record attrs =
  name :: string
  form :: "form option"
  use :: string
  value_a :: string
  required :: bool
  newline :: bool

datatype argument =
  Argument (attrs: attrs) (widget: "widget option") (arguments: "argument list")

datatype ItemType = KEYWORD | IMPLEMENTATION

record item =
  itype :: ItemType
  item_name :: string
  item_arguments :: "argument list"

subsection \<open>The text of a widget\<close>

text \<open>\<^verbatim>\<open>Group.text\<close>.\<close>

definition Group_text :: "attrs \<Rightarrow> widget \<Rightarrow> string" where
  "Group_text a w = (if w_isEnabled w \<and> isChecked w then '', '' @ name a else [])"

text \<open>
  \<^verbatim>\<open>ArgumentWidget.text\<close>, inherited by \<open>Combo\<close>, \<open>Text\<close>, \<open>Line\<close>, \<open>Int\<close> and
  \<open>Float\<close>. The widget copies \<^verbatim>\<open>name\<close> and \<^verbatim>\<open>newline\<close> from its argument when it is
  built, so they are read from the argument.
\<close>

definition ArgumentWidget_text :: "attrs \<Rightarrow> widget \<Rightarrow> string" where
  "ArgumentWidget_text a w =
     (if \<not> w_isEnabled w then []
      else if \<not> isEnabled w then []
      else
        let sep = (if newline a then nl else '', '') in
        if ct w \<noteq> [] \<and> \<not> startswith (ct w) ''!!! Create *'' then
          (if name a \<noteq> [] then sep @ name a @ ''='' @ ct w else sep @ ct w)
        else [])"

text \<open>\<^verbatim>\<open>GroupWidget.text\<close>, inherited by the boxes and the \<open>Or\<close> groups.\<close>

definition GroupWidget_text :: "attrs \<Rightarrow> string" where
  "GroupWidget_text a = (if newline a then nl else [])"

text \<open>
  The label that \<^verbatim>\<open>ArgumentWidget.__init__\<close> makes: a combo box of the alternatives
  when the name has a bar, a \<^verbatim>\<open>QLabel\<close> of the name when the name is not empty, and
  \<^verbatim>\<open>None\<close> otherwise.
\<close>

definition label_text :: "attrs \<Rightarrow> widget \<Rightarrow> string option" where
  "label_text a w =
     (if CHR ''|'' \<in> set (name a) then Some (label_ct w)
      else if name a \<noteq> [] then Some (name a)
      else None)"

text \<open>\<^verbatim>\<open>Bool.text\<close>; \<^verbatim>\<open>self.label.text()\<close> raises when there is no label.\<close>

definition Bool_text :: "attrs \<Rightarrow> widget \<Rightarrow> error + string" where
  "Bool_text a w =
     (if w_isEnabled w \<and> isChecked w then
        (case label_text a w of
           None \<Rightarrow> Inl AttributeError
         | Some l \<Rightarrow> Inr ('', '' @ l))
      else Inr [])"

text \<open>
  \<^verbatim>\<open>w.text()\<close> by the class of the widget. \<open>SelectFileWidget\<close> replaces the method by
  \<^verbatim>\<open>self.w.text\<close>, the text of its line edit.
\<close>

definition widget_text :: "attrs \<Rightarrow> widget \<Rightarrow> error + string" where
  "widget_text a w =
     (case wform w of
        Group \<Rightarrow> Inr (Group_text a w)
      | HBox \<Rightarrow> Inr (GroupWidget_text a)
      | VBox \<Rightarrow> Inr (GroupWidget_text a)
      | HOr \<Rightarrow> Inr (GroupWidget_text a)
      | VOr \<Rightarrow> Inr (GroupWidget_text a)
      | Bool \<Rightarrow> Bool_text a w
      | SelectFileWidget \<Rightarrow> Inr (ct w)
      | _ \<Rightarrow> Inr (ArgumentWidget_text a w))"

subsection \<open>Generation of the INP code\<close>

text \<open>
  The value that one pass of the loop of \<^verbatim>\<open>change\<close> appends for a widget, given the
  text \<open>old_value\<close> of the text edit.
\<close>

definition new_value :: "attrs \<Rightarrow> widget \<Rightarrow> error + string" where
  "new_value a w = (if isEnabled w then widget_text a w else Inr [])"

definition cut_separator :: "string \<Rightarrow> string \<Rightarrow> string" where
  "cut_separator old_value v =
     (if endswith old_value nl \<and> startswith v '', '' then drop 2 v else v)"

text \<open>
  The loop of \<^verbatim>\<open>change\<close> over a list of arguments, with the text of the text edit
  passed along. The recursive call \<^verbatim>\<open>change(data, args, append=True)\<close> neither resets
  the text nor replaces the arguments, so it is this loop over the nested arguments.
  An argument without a widget is skipped together with its nested arguments. The result
  is the text that the text edit holds in the end and the exception that stopped the
  loop, if one was raised.
\<close>

fun change_arg :: "argument \<Rightarrow> string \<Rightarrow> string \<times> error option"
  and change_for :: "argument list \<Rightarrow> string \<Rightarrow> string \<times> error option" where
  "change_arg (Argument a None args) old_value = (old_value, None)"
| "change_arg (Argument a (Some w) args) old_value =
     (case new_value a w of
        Inl e \<Rightarrow> (old_value, Some e)
      | Inr v \<Rightarrow> change_for args (old_value @ cut_separator old_value v))"
| "change_for [] old_value = (old_value, None)"
| "change_for (a # as) old_value =
     (case change_arg a old_value of
        (t, Some e) \<Rightarrow> (t, Some e)
      | (t, None) \<Rightarrow> change_for as t)"

text \<open>
  \<^verbatim>\<open>change(data, arguments, append)\<close> for the item \<open>ITEM\<close> of the dialog and the text
  \<open>TEXTEDIT\<close> that the text edit holds.
\<close>

definition change ::
  "item \<Rightarrow> string \<Rightarrow> 'd \<Rightarrow> argument list \<Rightarrow> bool \<Rightarrow> string \<times> error option" where
  "change ITEM TEXTEDIT data args append' =
     (if itype ITEM = IMPLEMENTATION then ([], None)
      else
        let t = (if \<not> append' then item_name ITEM else TEXTEDIT);
            args' = (if args = [] \<and> \<not> append' then item_arguments ITEM else args)
        in change_for args' t)"

text \<open>\<^verbatim>\<open>KeywordDialog.ok\<close>: the lines of the text edit.\<close>

definition ok :: "string \<Rightarrow> string list" where
  "ok TEXTEDIT = split_chr (CHR 0x0A) (strip TEXTEDIT)"

subsection \<open>Validation\<close>

text \<open>
  The classes derived from \<^verbatim>\<open>ArgumentWidget\<close>; only their widgets have the attribute
  \<^verbatim>\<open>required\<close>.
\<close>

definition is_ArgumentWidget :: "form \<Rightarrow> bool" where
  "is_ArgumentWidget f =
     (f = Combo \<or> f = Text \<or> f = Line \<or> f = Int' \<or> f = Float \<or> f = Bool
      \<or> f = SelectFileWidget)"





subsection \<open>Qt: which widgets are enabled\<close>

text \<open>
  Qt disables a widget together with everything inside it: \<^verbatim>\<open>isEnabled()\<close> of a widget
  is true when the widget was not disabled by \<^verbatim>\<open>setEnabled(False)\<close> and its parent is
  enabled, and the widgets inside a checkable group box are enabled only while the box is
  checked. In the dialog the nested arguments of a \<open>Group\<close> sit in its group box, those of
  a box, of an \<open>Or\<close> group and of an argument widget in the widget itself, and the only
  calls of \<^verbatim>\<open>setEnabled\<close> are those of \<open>Or\<close> on its nested arguments, which follow their
  radio buttons. \<open>refresh pe sel\<close> sets the flags of a widget and of the widgets below it
  accordingly, where \<open>pe\<close> says that the parent is enabled and \<open>sel\<close> that the widget was
  not disabled by \<^verbatim>\<open>setEnabled\<close>. The method \<^verbatim>\<open>setEnabled\<close> of an argument widget reaches
  the controls of the widget only (\<^verbatim>\<open>self.w\<close> among them), not the widget itself nor
  its nested arguments.
\<close>

definition is_box :: "form \<Rightarrow> bool" where
  "is_box f = (f = HBox \<or> f = VBox)"

definition is_or :: "form \<Rightarrow> bool" where
  "is_or f = (f = HOr \<or> f = VOr)"

fun refresh :: "bool \<Rightarrow> bool \<Rightarrow> argument \<Rightarrow> argument"
  and refresh_Or :: "bool \<Rightarrow> bool list \<Rightarrow> argument list \<Rightarrow> argument list" where
  "refresh pe sel (Argument a None args) = Argument a None args"
| "refresh pe sel (Argument a (Some w) args) =
     (if wform w = Group then
        Argument a (Some (w\<lparr>isEnabled := pe \<and> sel, w_isEnabled := pe \<and> sel\<rparr>))
          (map (refresh (pe \<and> sel \<and> isChecked w) True) args)
      else if is_box (wform w) then
        Argument a (Some (w\<lparr>isEnabled := pe \<and> sel\<rparr>)) (map (refresh (pe \<and> sel) True) args)
      else if is_or (wform w) then
        Argument a (Some (w\<lparr>isEnabled := pe \<and> sel\<rparr>)) (refresh_Or (pe \<and> sel) (rb w) args)
      else
        Argument a (Some (w\<lparr>isEnabled := pe, w_isEnabled := pe \<and> sel\<rparr>))
          (map (refresh pe True) args))"
| "refresh_Or pe rbs [] = []"
| "refresh_Or pe [] (x # xs) = refresh pe True x # refresh_Or pe [] xs"
| "refresh_Or pe (r # rbs) (x # xs) = refresh pe r x # refresh_Or pe rbs xs"

text \<open>
  \<^verbatim>\<open>a.widget.setEnabled(status)\<close> as \<open>Or\<close> calls it, for a widget whose parent has
  \<^verbatim>\<open>isEnabled()\<close> = \<open>pe\<close>. For a group or a box it is \<^verbatim>\<open>QWidget.setEnabled\<close>; \<open>Line\<close>,
  \<open>Int\<close>, \<open>Float\<close> and \<open>Text\<close> replace it by \<^verbatim>\<open>self.w.setEnabled\<close>, and the other argument
  widgets inherit \<^verbatim>\<open>ArgumentWidget.setEnabled\<close>, the loop over \<^verbatim>\<open>self.widgets\<close>.
\<close>

fun setEnabled :: "bool \<Rightarrow> bool \<Rightarrow> argument \<Rightarrow> argument" where
  "setEnabled pe status (Argument a None args) = Argument a None args"
| "setEnabled pe status (Argument a (Some w) args) =
     (if wform w = Group \<or> is_box (wform w) \<or> is_or (wform w) then
        refresh pe status (Argument a (Some w) args)
      else Argument a (Some (w\<lparr>w_isEnabled := status \<and> isEnabled w\<rparr>)) args)"

subsection \<open>Building the widgets\<close>

definition fresh :: "form \<Rightarrow> widget" where
  "fresh f =
     \<lparr>wform = f, isEnabled = True, w_isEnabled = True, isChecked = False, ct = [],
      label_ct = [], items = [], rb = []\<rparr>"

text \<open>
  The items that \<^verbatim>\<open>Combo.__init__\<close> adds. \<open>KWT u\<close> stands for the names of
  \<^verbatim>\<open>KWT.get_implementations(u)\<close>, in the order of that list.
\<close>

definition Combo_items :: "(string \<Rightarrow> string list) \<Rightarrow> attrs \<Rightarrow> string list" where
  "Combo_items KWT a =
     (if use a \<noteq> [] then
        [] # (if KWT (use a) \<noteq> [] then KWT (use a)
              else [''!!! Create '' @ use a @ '' first !!!''])
      else [])
     @ (if value_a a \<noteq> [] then split_chr (CHR ''|'') (value_a a) else [])"

text \<open>\<^verbatim>\<open>text.split('\\n')\<close>: the separator is a backslash followed by the letter n.\<close>

fun split_bsn :: "string \<Rightarrow> string list" where
  "split_bsn [] = [[]]"
| "split_bsn [c] = [[c]]"
| "split_bsn (c # d # cs) =
     (if c = CHR 0x5C \<and> d = CHR ''n'' then [] # split_bsn cs
      else (case split_bsn (d # cs) of
              [] \<Rightarrow> [[c]]
            | l # ls \<Rightarrow> (c # l) # ls))"

text \<open>
  \<^verbatim>\<open>Text.setText\<close>: \<^verbatim>\<open>QTextEdit.append\<close> starts a new paragraph unless the document is
  empty.
\<close>

definition Text_setText :: "string \<Rightarrow> string" where
  "Text_setText v =
     foldl (\<lambda>doc line. if doc = [] then line else doc @ nl @ line) [] (split_bsn v)"

text \<open>
  The state of an argument widget after its \<^verbatim>\<open>__init__\<close>. A combo box shows its first
  item; a label that is a combo box shows the first alternative of the name.
\<close>

definition first_item :: "string list \<Rightarrow> string" where
  "first_item xs = (case xs of [] \<Rightarrow> [] | x # _ \<Rightarrow> x)"

definition init_widget :: "(string \<Rightarrow> string list) \<Rightarrow> form \<Rightarrow> attrs \<Rightarrow> widget" where
  "init_widget KWT f a =
     (fresh f)
       \<lparr>isChecked := (f = Bool \<and> required a),
        ct := (if f = Combo then first_item (Combo_items KWT a)
               else if f = Text then Text_setText (value_a a)
               else if f = Line \<or> f = Int' \<or> f = Float then value_a a
               else []),
        label_ct := (if CHR ''|'' \<in> set (name a)
                     then first_item (split_chr (CHR ''|'') (name a)) else []),
        items := (if f = Combo then Combo_items KWT a else [])\<rparr>"

text \<open>
  \<^verbatim>\<open>build_widgets\<close>. \<open>build_one\<close> is one pass of its loop: \<open>fv\<close> is the local variable
  \<^verbatim>\<open>form\<close>, unbound (\<open>None\<close>) at the start of a call and kept from one pass to the next;
  \<^verbatim>\<open>eval(form)(a)\<close> is the constructor of the widget class, which builds the widgets of
  the nested arguments by a call of its own. \<open>Group\<close> unchecks its group box, so what is
  put into the box is disabled. \<open>build_Or\<close> is the loop of \<^verbatim>\<open>Or.__init__\<close>, which builds
  each nested argument by a call of \<^verbatim>\<open>build_widgets\<close> on it alone and enables the first
  one only.
\<close>

fun build_one ::
    "(string \<Rightarrow> string list) \<Rightarrow> form option \<Rightarrow> argument \<Rightarrow> error + (form \<times> argument)"
  and build_widgets ::
    "(string \<Rightarrow> string list) \<Rightarrow> form option \<Rightarrow> argument list \<Rightarrow> error + argument list"
  and build_Or ::
    "(string \<Rightarrow> string list) \<Rightarrow> nat \<Rightarrow> argument list \<Rightarrow> error + argument list" where
  "build_one KWT fv (Argument a w0 args) =
     (case (if use a \<noteq> [] then Some Combo
            else (case form a of Some f \<Rightarrow> Some f | None \<Rightarrow> fv)) of
        None \<Rightarrow> Inl UnboundLocalError
      | Some f \<Rightarrow>
          if f = Group then
            (case build_widgets KWT None args of
               Inl e \<Rightarrow> Inl e
             | Inr ws \<Rightarrow>
                 Inr (f, Argument a (Some (fresh f)) (map (refresh False True) ws)))
          else if is_box f then
            (case build_widgets KWT None args of
               Inl e \<Rightarrow> Inl e
             | Inr ws \<Rightarrow> Inr (f, Argument a (Some (fresh f)) ws))
          else if is_or f then
            (case build_Or KWT 0 args of
               Inl e \<Rightarrow> Inl e
             | Inr ws \<Rightarrow>
                 Inr (f, Argument a
                   (Some ((fresh f)\<lparr>rb := map (\<lambda>i. i = 0) [0..<length args]\<rparr>)) ws))
          else
            (case build_widgets KWT None args of
               Inl e \<Rightarrow> Inl e
             | Inr ws \<Rightarrow> Inr (f, Argument a (Some (init_widget KWT f a)) ws)))"
| "build_widgets KWT fv [] = Inr []"
| "build_widgets KWT fv (a # as) =
     (case build_one KWT fv a of
        Inl e \<Rightarrow> Inl e
      | Inr (f, a') \<Rightarrow>
          (case build_widgets KWT (Some f) as of
             Inl e \<Rightarrow> Inl e
           | Inr as' \<Rightarrow> Inr (a' # as')))"
| "build_Or KWT i [] = Inr []"
| "build_Or KWT i (a # as) =
     (case build_one KWT None a of
        Inl e \<Rightarrow> Inl e
      | Inr (f, a') \<Rightarrow>
          (case build_Or KWT (Suc i) as of
             Inl e \<Rightarrow> Inl e
           | Inr as' \<Rightarrow> Inr (setEnabled True (i = 0) a' # as')))"

subsection \<open>What the user does\<close>

text \<open>
  The slots \<^verbatim>\<open>rb.toggled.connect(a.widget.setEnabled)\<close> of an \<open>Or\<close> group, run for the
  radio buttons whose state has changed from \<open>rs\<close> to \<open>rs'\<close>.
\<close>

fun toggled_slots ::
  "bool \<Rightarrow> bool list \<Rightarrow> bool list \<Rightarrow> argument list \<Rightarrow> argument list" where
  "toggled_slots pe (r # rs) (r' # rs') (x # xs) =
     (if r \<noteq> r' then setEnabled pe r' x else x) # toggled_slots pe rs rs' xs"
| "toggled_slots pe rs rs' xs = xs"

text \<open>
  A click on radio button \<open>j\<close> of an \<open>Or\<close> group. The radio buttons of one parent widget
  are exclusive in Qt: a click on an enabled, unchecked button checks it and unchecks the
  others, and a click on the checked button changes nothing.
\<close>

fun rb_clicked :: "nat \<Rightarrow> argument \<Rightarrow> argument" where
  "rb_clicked j (Argument a None args) = Argument a None args"
| "rb_clicked j (Argument a (Some w) args) =
     (if is_or (wform w) \<and> isEnabled w \<and> j < length (rb w) \<and> \<not> rb w ! j then
        Argument a (Some (w\<lparr>rb := map (\<lambda>i. i = j) [0..<length (rb w)]\<rparr>))
          (toggled_slots (isEnabled w) (rb w) (map (\<lambda>i. i = j) [0..<length (rb w)]) args)
      else Argument a (Some w) args)"

text \<open>
  A click on the check box of the group box of a \<open>Group\<close>: Qt enables what is in the box
  when the box gets checked and disables it when the box gets unchecked.
\<close>

fun gbox_clicked :: "argument \<Rightarrow> argument" where
  "gbox_clicked (Argument a None args) = Argument a None args"
| "gbox_clicked (Argument a (Some w) args) =
     (if wform w = Group \<and> w_isEnabled w then
        Argument a (Some (w\<lparr>isChecked := \<not> isChecked w\<rparr>))
          (map (refresh (\<not> isChecked w) True) args)
      else Argument a (Some w) args)"

text \<open>A click on the check box of a \<open>Bool\<close>.\<close>

fun checkbox_clicked :: "argument \<Rightarrow> argument" where
  "checkbox_clicked (Argument a None args) = Argument a None args"
| "checkbox_clicked (Argument a (Some w) args) =
     (if wform w = Bool \<and> w_isEnabled w then
        Argument a (Some (w\<lparr>isChecked := \<not> isChecked w\<rparr>)) args
      else Argument a (Some w) args)"

text \<open>
  The user enters the text \<open>s\<close> in the enabled control of an argument widget, or picks
  the item \<open>s\<close> of its combo box.
\<close>

fun edited :: "string \<Rightarrow> argument \<Rightarrow> argument" where
  "edited s (Argument a None args) = Argument a None args"
| "edited s (Argument a (Some w) args) =
     (if w_isEnabled w \<and> is_ArgumentWidget (wform w) \<and> wform w \<noteq> Bool
         \<and> (wform w \<noteq> Combo \<or> s \<in> set (items w)) then
        Argument a (Some (w\<lparr>ct := s\<rparr>)) args
      else Argument a (Some w) args)"

text \<open>
  An event names the argument it concerns by the path to it: the index of an argument
  of the keyword, then the indices of the nested arguments down to it.
\<close>

fun update_at :: "nat list \<Rightarrow> (argument \<Rightarrow> argument) \<Rightarrow> argument list \<Rightarrow> argument list"
  and update_in :: "nat list \<Rightarrow> (argument \<Rightarrow> argument) \<Rightarrow> argument \<Rightarrow> argument" where
  "update_at [] f xs = xs"
| "update_at (i # p) f xs =
     (if i < length xs then xs[i := update_in p f (xs ! i)] else xs)"
| "update_in [] f x = f x"
| "update_in (i # p) f (Argument a w args) = Argument a w (update_at (i # p) f args)"

datatype event =
  RadioClicked "nat list" nat
  | GroupBoxClicked "nat list"
  | CheckBoxClicked "nat list"
  | Edited "nat list" string

fun step :: "argument list \<Rightarrow> event \<Rightarrow> argument list" where
  "step t (RadioClicked p j) = update_at p (rb_clicked j) t"
| "step t (GroupBoxClicked p) = update_at p gbox_clicked t"
| "step t (CheckBoxClicked p) = update_at p checkbox_clicked t"
| "step t (Edited p s) = update_at p (edited s) t"

definition run :: "argument list \<Rightarrow> event list \<Rightarrow> argument list" where
  "run t es = foldl step t es"

subsection \<open>A session of the dialog of \<^verbatim>\<open>*CONSTRAINT\<close>\<close>

text \<open>
  Three arguments: the required \<open>NAME\<close>, filled with \<open>C1\<close>; \<open>TYPE\<close> with a list of
  values, the first of them chosen; \<open>PENALTY\<close>, which starts a line of its own and whose
  control is disabled.
\<close>

definition CONSTRAINT_arguments :: "argument list" where
  "CONSTRAINT_arguments =
     [Argument
        \<lparr>name = ''NAME'', form = Some Line, use = [], value_a = [], required = True,
         newline = False\<rparr>
        (Some ((fresh Line)\<lparr>ct := ''C1''\<rparr>)) [],
      Argument
        \<lparr>name = ''TYPE'', form = Some Combo, use = [],
         value_a = ''DISTRIBUTING|KINEMATIC'', required = False, newline = False\<rparr>
        (Some ((fresh Combo)
           \<lparr>ct := ''DISTRIBUTING'', items := [''DISTRIBUTING'', ''KINEMATIC'']\<rparr>)) [],
      Argument
        \<lparr>name = ''PENALTY'', form = Some Line, use = [], value_a = [], required = False,
         newline = True\<rparr>
        (Some ((fresh Line)\<lparr>w_isEnabled := False, ct := ''0.5''\<rparr>)) []]"

definition CONSTRAINT :: item where
  "CONSTRAINT =
     \<lparr>itype = KEYWORD, item_name = ''*CONSTRAINT'', item_arguments = CONSTRAINT_arguments\<rparr>"

subsection \<open>Lines that begin with a comma\<close>



subsection \<open>Predicates on the tree of arguments\<close>

text \<open>An argument and the arguments nested in it at any depth, in document order.\<close>

fun nodes :: "argument \<Rightarrow> argument list" where
  "nodes (Argument a wo args) = Argument a wo args # concat (map nodes args)"

definition all_nodes :: "argument list \<Rightarrow> argument list" where
  "all_nodes xs = concat (map nodes xs)"

text \<open>
  The flags of the widgets of an argument are those that Qt gives them below a parent
  with \<^verbatim>\<open>isEnabled()\<close> = \<open>pe\<close>, when \<open>sel\<close> says whether the widget is the one that its \<open>Or\<close>
  group has left enabled.
\<close>

definition qt_flags :: "bool \<Rightarrow> bool \<Rightarrow> argument \<Rightarrow> bool" where
  "qt_flags pe sel x = (refresh pe sel x = x)"

text \<open>
  \<open>tree_all Q x\<close>: \<open>Q\<close> holds of \<open>x\<close> and of every argument nested in \<open>x\<close>, where \<open>Q\<close> sees
  the attributes of an argument, its widget and the number of its nested arguments.
\<close>

fun tree_all :: "(attrs \<Rightarrow> widget option \<Rightarrow> nat \<Rightarrow> bool) \<Rightarrow> argument \<Rightarrow> bool" where
  "tree_all Q (Argument a wo args) =
     (Q a wo (length args) \<and> (\<forall>x \<in> set args. tree_all Q x))"

text \<open>An argument has a widget.\<close>

definition has_widget :: "attrs \<Rightarrow> widget option \<Rightarrow> nat \<Rightarrow> bool" where
  "has_widget a wo n = (wo \<noteq> None)"

text \<open>
  An \<open>Or\<close> group with nested arguments has one radio button for each of them, and exactly
  one of the buttons is checked.
\<close>

definition one_checked :: "attrs \<Rightarrow> widget option \<Rightarrow> nat \<Rightarrow> bool" where
  "one_checked a wo n =
     (case wo of
        None \<Rightarrow> True
      | Some w \<Rightarrow>
          (if is_or (wform w) \<and> 0 < n
           then length (rb w) = n \<and> length (filter id (rb w)) = 1
           else True))"

definition exclusive_ok :: "argument \<Rightarrow> bool" where
  "exclusive_ok x = tree_all one_checked x"

text \<open>An \<open>Or\<close> group has its first radio button checked and no other.\<close>

definition first_checked :: "attrs \<Rightarrow> widget option \<Rightarrow> nat \<Rightarrow> bool" where
  "first_checked a wo n =
     (case wo of
        None \<Rightarrow> True
      | Some w \<Rightarrow> (if is_or (wform w) then rb w = map (\<lambda>i. i = 0) [0..<n] else True))"

definition first_selected :: "argument \<Rightarrow> bool" where
  "first_selected x = tree_all first_checked x"

text \<open>
  An argument has a widget; the group box of a \<open>Group\<close> is unchecked; the check box of a
  \<open>Bool\<close> is checked when the argument is required and only then.
\<close>

definition box_unchecked :: "attrs \<Rightarrow> widget option \<Rightarrow> nat \<Rightarrow> bool" where
  "box_unchecked a wo n =
     (case wo of
        None \<Rightarrow> False
      | Some w \<Rightarrow>
          (if wform w = Group then \<not> isChecked w
           else if wform w = Bool then isChecked w = required a
           else True))"

definition groups_unchecked :: "argument \<Rightarrow> bool" where
  "groups_unchecked x = tree_all box_unchecked x"




subsection \<open>The text edit after an event\<close>



subsection \<open>Grammars for the examples\<close>

definition leaf :: "string \<Rightarrow> form \<Rightarrow> string \<Rightarrow> bool \<Rightarrow> argument" where
  "leaf n f v r =
     Argument
       \<lparr>name = n, form = Some f, use = [], value_a = v, required = r, newline = False\<rparr>
       None []"

definition group :: "string \<Rightarrow> form \<Rightarrow> bool \<Rightarrow> argument list \<Rightarrow> argument" where
  "group n f nw xs =
     Argument
       \<lparr>name = n, form = Some f, use = [], value_a = [], required = False, newline = nw\<rparr>
       None xs"

definition keyword :: "string \<Rightarrow> argument list \<Rightarrow> item" where
  "keyword n xs = \<lparr>itype = KEYWORD, item_name = n, item_arguments = xs\<rparr>"

text \<open>
  The session of the dialog of a grammar after the events \<open>es\<close>, when no implementation
  is registered; no session when \<^verbatim>\<open>build_widgets\<close> raises.
\<close>

definition run_built :: "argument list \<Rightarrow> event list \<Rightarrow> argument list" where
  "run_built g es =
     (case build_widgets (\<lambda>u. []) None g of Inl e \<Rightarrow> [] | Inr t \<Rightarrow> run t es)"

text \<open>No implementation of any keyword is registered.\<close>

definition no_implementations :: "string \<Rightarrow> string list" where
  "no_implementations u = []"

text \<open>Two implementations of \<^verbatim>\<open>*SURFACE\<close>, \<open>S1\<close> and \<open>S2\<close>, and none of another keyword.\<close>

definition two_surfaces :: "string \<Rightarrow> string list" where
  "two_surfaces u = (if u = ''*SURFACE'' then [''S1'', ''S2''] else [])"

text \<open>A choice between a line of text and a file.\<close>

definition file_or_line :: "argument list" where
  "file_or_line =
     [group [] VOr False [leaf ''A'' Line [] False, leaf ''INPUT'' SelectFileWidget [] False]]"

text \<open>A group with a required argument in it, which has a default value.\<close>

definition required_in_group :: "argument list" where
  "required_in_group = [group ''G'' Group False [leaf ''X'' Line ''1'' True]]"

text \<open>
  The session of that grammar when the dialog opens: the group box is unchecked and the
  line edit in it is disabled.
\<close>

definition G_attrs :: attrs where
  "G_attrs =
     \<lparr>name = ''G'', form = Some Group, use = [], value_a = [], required = False,
      newline = False\<rparr>"

definition X_disabled :: argument where
  "X_disabled =
     Argument
       \<lparr>name = ''X'', form = Some Line, use = [], value_a = ''1'', required = True,
        newline = False\<rparr>
       (Some ((fresh Line)\<lparr>isEnabled := False, w_isEnabled := False, ct := ''1''\<rparr>)) []"



text \<open>An argument that refers to the implementations of \<^verbatim>\<open>*SURFACE\<close>.\<close>

definition surface_reference :: attrs where
  "surface_reference =
     \<lparr>name = ''SURFACE'', form = None, use = ''*SURFACE'', value_a = [], required = False,
      newline = False\<rparr>"

section \<open>Properties\<close>

subsection \<open>The example of \<^verbatim>\<open>*CONSTRAINT\<close>\<close>

text \<open>
  C1. For the keyword \<^verbatim>\<open>*CONSTRAINT\<close> with \<open>NAME\<close> = \<open>C1\<close>, \<open>TYPE\<close> = \<open>DISTRIBUTING\<close> and
  \<open>PENALTY\<close> disabled, whatever the text edit held before, \<^verbatim>\<open>change\<close> leaves the single
  line \<^verbatim>\<open>*CONSTRAINT, NAME=C1, TYPE=DISTRIBUTING\<close> in it and raises nothing, and \<^verbatim>\<open>ok\<close>
  returns that line alone: the name of the keyword first, the values joined by a comma
  and a space, nothing for the disabled argument, no separator and no line break at the
  end.
\<close>

theorem C1_constraint_line:
  "change CONSTRAINT TEXTEDIT data [] False
     = (''*CONSTRAINT, NAME=C1, TYPE=DISTRIBUTING'', None)
   \<and> ok (fst (change CONSTRAINT TEXTEDIT data [] False))
     = [''*CONSTRAINT, NAME=C1, TYPE=DISTRIBUTING'']"
  by (simp add: change_def CONSTRAINT_def CONSTRAINT_arguments_def fresh_def
      new_value_def widget_text_def ArgumentWidget_text_def cut_separator_def
      endswith_def startswith_def nl_def ok_def strip_def isspace_def)

subsection \<open>No separator at the beginning of a line\<close>























subsection \<open>The flags of the widgets\<close>

lemma refresh_Or_length: "length (refresh_Or pe rbs xs) = length xs"
  by (induction xs arbitrary: rbs) (case_tac rbs; simp)+

lemma change_for_silent:
  assumes "\<And>x old. x \<in> set xs \<Longrightarrow> change_arg x old = (old, None)"
  shows "change_for xs old = (old, None)"
  using assms by (induction xs arbitrary: old) simp_all

lemma refresh_Or_set:
  "y \<in> set (refresh_Or pe rbs xs) \<Longrightarrow> \<exists>x \<in> set xs. \<exists>sel. y = refresh pe sel x"
proof (induction xs arbitrary: rbs)
  case Nil
  then show ?case by simp
next
  case (Cons x xs)
  then show ?case by (cases rbs) auto
qed

lemma disabled_silent:
  "change_arg (refresh False sel x) old = (old, None)"
proof (induction x arbitrary: sel old)
  case (Argument a wo args)
  show ?case
  proof (cases wo)
    case None
    then show ?thesis by simp
  next
    case (Some w)
    have kids: "change_for (map (refresh False True) args) t = (t, None)" for t
      by (rule change_for_silent) (auto simp: Argument.IH)
    have kids_Or: "change_for (refresh_Or False (rb w) args) t = (t, None)" for t
    proof (rule change_for_silent)
      fix y old'
      assume "y \<in> set (refresh_Or False (rb w) args)"
      then obtain x s where "x \<in> set args" "y = refresh False s x"
        using refresh_Or_set by blast
      then show "change_arg y old' = (old', None)" by (simp add: Argument.IH)
    qed
    from Some kids kids_Or show ?thesis
      by (simp add: new_value_def cut_separator_def)
  qed
qed

lemma map_fix_iff: "(map f xs = xs) = (\<forall>x \<in> set xs. f x = x)"
  by (induction xs) auto

lemma widget_flags_fix:
  "(w\<lparr>isEnabled := e, w_isEnabled := e'\<rparr> = w) = (isEnabled w = e \<and> w_isEnabled w = e')"
  "(w\<lparr>isEnabled := e\<rparr> = w) = (isEnabled w = e)"
  by (cases w; auto)+

lemma refresh_Or_refresh_Or:
  assumes "\<And>x s s'. x \<in> set xs \<Longrightarrow> refresh pe s (refresh pe' s' x) = refresh pe s x"
  shows "refresh_Or pe rbs (refresh_Or pe' rbs' xs) = refresh_Or pe rbs xs"
  using assms
proof (induction xs arbitrary: rbs rbs')
  case Nil
  then show ?case by simp
next
  case (Cons x xs)
  then show ?case by (cases rbs; cases rbs') simp_all
qed

lemma refresh_refresh: "refresh pe sel (refresh pe' sel' x) = refresh pe sel x"
proof (induction x arbitrary: pe sel pe' sel')
  case (Argument a wo args)
  show ?case
  proof (cases wo)
    case None
    then show ?thesis by simp
  next
    case (Some w)
    have "refresh_Or p rbs (refresh_Or p' rbs' args) = refresh_Or p rbs args" for p rbs p' rbs'
      by (rule refresh_Or_refresh_Or) (simp add: Argument.IH)
    with Some show ?thesis by (simp add: Argument.IH)
  qed
qed

lemma tree_all_refresh_Or:
  assumes "\<And>x s. x \<in> set xs \<Longrightarrow> tree_all Q (refresh pe s x) = tree_all Q x"
  shows "(\<forall>y \<in> set (refresh_Or pe rbs xs). tree_all Q y) = (\<forall>x \<in> set xs. tree_all Q x)"
  using assms
proof (induction xs arbitrary: rbs)
  case Nil
  then show ?case by simp
next
  case (Cons x xs)
  then show ?case by (cases rbs) simp_all
qed

lemma tree_all_refresh:
  assumes "\<And>a w n e e'. Q a (Some (w\<lparr>isEnabled := e, w_isEnabled := e'\<rparr>)) n = Q a (Some w) n"
  shows "tree_all Q (refresh pe sel x) = tree_all Q x"
proof (induction x arbitrary: pe sel)
  case (Argument a wo args)
  show ?case
  proof (cases wo)
    case None
    then show ?thesis by simp
  next
    case (Some w)
    have flag: "Q a (Some (w\<lparr>isEnabled := e\<rparr>)) n = Q a (Some w) n" for e n
      using assms [where a = a and w = w and e = e and e' = "w_isEnabled w" and n = n] by simp
    have alt: "(\<forall>y \<in> set (refresh_Or p rbs args). tree_all Q y) = (\<forall>x \<in> set args. tree_all Q x)"
      for p rbs
      by (rule tree_all_refresh_Or) (simp add: Argument.IH)
    from Some show ?thesis
      by (simp add: Argument.IH assms flag alt refresh_Or_length)
  qed
qed

lemma flags_ignored:
  "one_checked a (Some (w\<lparr>isEnabled := e, w_isEnabled := e'\<rparr>)) n = one_checked a (Some w) n"
  "first_checked a (Some (w\<lparr>isEnabled := e, w_isEnabled := e'\<rparr>)) n = first_checked a (Some w) n"
  "box_unchecked a (Some (w\<lparr>isEnabled := e, w_isEnabled := e'\<rparr>)) n = box_unchecked a (Some w) n"
  by (simp_all add: one_checked_def first_checked_def box_unchecked_def)

lemma tree_all_setEnabled:
  assumes "\<And>a w n e e'. Q a (Some (w\<lparr>isEnabled := e, w_isEnabled := e'\<rparr>)) n = Q a (Some w) n"
  shows "tree_all Q (setEnabled pe s x) = tree_all Q x"
proof (cases x)
  case (Argument a wo args)
  show ?thesis
  proof (cases wo)
    case None
    with Argument show ?thesis by simp
  next
    case (Some w)
    have "Q a (Some (w\<lparr>w_isEnabled := e\<rparr>)) n = Q a (Some w) n" for e n
      using assms [where a = a and w = w and e = "isEnabled w" and e' = e and n = n] by simp
    with Argument Some tree_all_refresh [where Q = Q and pe = pe and sel = s and x = x, OF assms]
    show ?thesis
      by auto
  qed
qed

subsection \<open>The session that \<^verbatim>\<open>build_widgets\<close> makes\<close>

lemma setEnabled_fix:
  assumes "qt_flags pe r x"
  shows "qt_flags pe s (setEnabled pe s x)"
proof (cases x)
  case (Argument a wo args)
  show ?thesis
  proof (cases wo)
    case None
    with Argument show ?thesis by (simp add: qt_flags_def)
  next
    case (Some w)
    show ?thesis
    proof (cases "wform w = Group \<or> is_box (wform w) \<or> is_or (wform w)")
      case True
      with Argument Some show ?thesis
        by (simp add: qt_flags_def refresh_refresh del: refresh.simps)
    next
      case False
      with assms Argument Some have "isEnabled w = pe" "map (refresh pe True) args = args"
        by (simp_all add: qt_flags_def widget_flags_fix)
      with False Argument Some show ?thesis
        by (auto simp: qt_flags_def)
    qed
  qed
qed

lemma fresh_flags [simp]:
  "isEnabled (fresh f) = True" "w_isEnabled (fresh f) = True" "isChecked (fresh f) = False"
  "wform (fresh f) = f" "rb (fresh f) = []"
  by (simp_all add: fresh_def)

lemma init_widget_flags [simp]:
  "isEnabled (init_widget K f a) = True" "w_isEnabled (init_widget K f a) = True"
  "isChecked (init_widget K f a) = (f = Bool \<and> required a)"
  "wform (init_widget K f a) = f"
  by (simp_all add: init_widget_def)

lemma is_kind_simps [simp]:
  "\<not> is_or Group" "\<not> is_box Group" "is_box f \<Longrightarrow> \<not> is_or f" "is_box f \<Longrightarrow> f \<noteq> Bool"
  "is_or f \<Longrightarrow> f \<noteq> Bool"
  by (auto simp: is_or_def is_box_def)

lemma upt_shift: "[i..<i + length (x # xs)] = i # [Suc i..<Suc i + length xs]"
  by (simp add: upt_rec)

lemma build_fresh:
  "build_one KWT fv x = Inr (f, x') \<Longrightarrow>
     qt_flags True True x' \<and> first_selected x' \<and> groups_unchecked x'"
  "build_widgets KWT fv xs = Inr ys \<Longrightarrow>
     length ys = length xs
     \<and> (\<forall>y \<in> set ys. qt_flags True True y \<and> first_selected y \<and> groups_unchecked y)"
  "build_Or KWT i xs = Inr zs \<Longrightarrow>
     length zs = length xs
     \<and> refresh_Or True (map (\<lambda>k. k = 0) [i..<i + length xs]) zs = zs
     \<and> (\<forall>y \<in> set zs. first_selected y \<and> groups_unchecked y)"
proof (induction KWT fv x and KWT fv xs and KWT i xs arbitrary: f x' and ys and zs
    rule: build_one_build_widgets_build_Or.induct)
  case (1 KWT fv a w0 args)
  let ?pick = "if use a \<noteq> [] then Some Combo
               else case form a of None \<Rightarrow> fv | Some x \<Rightarrow> Some x"
  from "1.prems" obtain g where g: "?pick = Some g"
    by (cases ?pick) (auto split: option.splits)
  consider (grp) "g = Group" | (box) "g \<noteq> Group" "is_box g"
    | (alt) "g \<noteq> Group" "\<not> is_box g" "is_or g"
    | (arg) "g \<noteq> Group" "\<not> is_box g" "\<not> is_or g" by blast
  then show ?case
  proof cases
    case grp
    with "1.prems" g obtain ws where ws: "build_widgets KWT None args = Inr ws"
      and x': "x' = Argument a (Some (fresh Group)) (map (refresh False True) ws)"
      by (auto split: sum.splits option.splits if_splits)
    from "1.IH"(1) [OF g grp ws] have kids:
      "\<forall>y \<in> set ws. first_selected y \<and> groups_unchecked y" by simp
    have "qt_flags True True x'"
      by (simp add: x' qt_flags_def refresh_refresh)
    moreover have "first_selected x'"
      using kids by (simp add: x' first_selected_def first_checked_def
          tree_all_refresh [where Q = first_checked, OF flags_ignored(2)])
    moreover have "groups_unchecked x'"
      using kids by (simp add: x' groups_unchecked_def box_unchecked_def
          tree_all_refresh [where Q = box_unchecked, OF flags_ignored(3)])
    ultimately show ?thesis by simp
  next
    case box
    with "1.prems" g obtain ws where ws: "build_widgets KWT None args = Inr ws"
      and x': "x' = Argument a (Some (fresh g)) ws"
      by (auto split: sum.splits option.splits if_splits)
    from "1.IH"(2) [OF g box ws] have kids:
      "\<forall>y \<in> set ws. qt_flags True True y \<and> first_selected y \<and> groups_unchecked y" by simp
    then have "map (refresh True True) ws = ws"
      by (simp add: map_fix_iff qt_flags_def)
    then have "qt_flags True True x'"
      using box by (simp add: x' qt_flags_def)
    moreover have "first_selected x'"
      using kids box by (simp add: x' first_selected_def first_checked_def)
    moreover have "groups_unchecked x'"
      using kids box by (simp add: x' groups_unchecked_def box_unchecked_def)
    ultimately show ?thesis by simp
  next
    case alt
    with "1.prems" g obtain ws where ws: "build_Or KWT 0 args = Inr ws"
      and x': "x' = Argument a
                 (Some ((fresh g)\<lparr>rb := map (\<lambda>i. i = 0) [0..<length args]\<rparr>)) ws"
      by (auto split: sum.splits option.splits if_splits)
    from "1.IH"(3) [OF g alt ws] have len: "length ws = length args"
      and fixed: "refresh_Or True (map (\<lambda>k. k = 0) [0..<length args]) ws = ws"
      and kids: "\<forall>y \<in> set ws. first_selected y \<and> groups_unchecked y" by simp_all
    have "qt_flags True True x'"
      using alt fixed by (simp add: x' qt_flags_def)
    moreover have "first_selected x'"
      using kids alt len by (simp add: x' first_selected_def first_checked_def)
    moreover have "groups_unchecked x'"
      using kids alt by (simp add: x' groups_unchecked_def box_unchecked_def)
    ultimately show ?thesis by simp
  next
    case arg
    with "1.prems" g obtain ws where ws: "build_widgets KWT None args = Inr ws"
      and x': "x' = Argument a (Some (init_widget KWT g a)) ws"
      by (auto split: sum.splits option.splits if_splits)
    from "1.IH"(4) [OF g arg ws] have kids:
      "\<forall>y \<in> set ws. qt_flags True True y \<and> first_selected y \<and> groups_unchecked y" by simp
    then have "map (refresh True True) ws = ws"
      by (simp add: map_fix_iff qt_flags_def)
    then have "qt_flags True True x'"
      using arg by (simp add: x' qt_flags_def)
    moreover have "first_selected x'"
      using kids arg by (simp add: x' first_selected_def first_checked_def)
    moreover have "groups_unchecked x'"
      using kids arg by (simp add: x' groups_unchecked_def box_unchecked_def)
    ultimately show ?thesis by simp
  qed
next
  case (2 KWT fv)
  then show ?case by simp
next
  case (3 KWT fv a as)
  from "3.prems" obtain g a' as' where a': "build_one KWT fv a = Inr (g, a')"
    and as': "build_widgets KWT (Some g) as = Inr as'" and ys: "ys = a' # as'"
    by (auto split: sum.splits prod.splits)
  from "3.IH"(1) [OF a'] "3.IH"(2) [OF a' refl as'] ys show ?case by simp
next
  case (4 KWT i)
  then show ?case by simp
next
  case (5 KWT i a as)
  from "5.prems" obtain g a' as' where a': "build_one KWT None a = Inr (g, a')"
    and as': "build_Or KWT (Suc i) as = Inr as'"
    and zs: "zs = setEnabled True (i = 0) a' # as'"
    by (auto split: sum.splits prod.splits)
  from "5.IH"(1) [OF a'] have h: "qt_flags True True a'" "first_selected a'" "groups_unchecked a'"
    by simp_all
  from "5.IH"(2) [OF a' refl as'] have t: "length as' = length as"
    "refresh_Or True (map (\<lambda>k. k = 0) [Suc i..<Suc i + length as]) as' = as'"
    "\<forall>y \<in> set as'. first_selected y \<and> groups_unchecked y" by simp_all
  have "refresh True (i = 0) (setEnabled True (i = 0) a') = setEnabled True (i = 0) a'"
    using setEnabled_fix [OF h(1)] by (simp add: qt_flags_def)
  moreover have "first_selected (setEnabled True (i = 0) a')"
    using h(2) by (simp add: first_selected_def
        tree_all_setEnabled [where Q = first_checked, OF flags_ignored(2)])
  moreover have "groups_unchecked (setEnabled True (i = 0) a')"
    using h(3) by (simp add: groups_unchecked_def
        tree_all_setEnabled [where Q = box_unchecked, OF flags_ignored(3)])
  ultimately show ?case using t zs by (simp only: upt_shift) simp
qed

lemma refresh_Or_Nil: "refresh_Or pe [] xs = map (refresh pe True) xs"
  by (induction xs) simp_all

lemma refresh_Or_update:
  "refresh_Or pe rbs (xs[i := y])
     = (refresh_Or pe rbs xs)[i := refresh pe (if i < length rbs then rbs ! i else True) y]"
proof (induction xs arbitrary: rbs i)
  case Nil
  then show ?case by simp
next
  case (Cons x xs)
  then show ?case by (cases rbs; cases i) simp_all
qed

lemma refresh_Or_nth:
  "i < length xs \<Longrightarrow>
     refresh_Or pe rbs xs ! i = refresh pe (if i < length rbs then rbs ! i else True) (xs ! i)"
proof (induction xs arbitrary: rbs i)
  case Nil
  then show ?case by simp
next
  case (Cons x xs)
  then show ?case by (cases rbs; cases i) simp_all
qed

lemma update_length [simp]: "length (update_at p f xs) = length xs"
  by (cases p) simp_all

subsection \<open>Events\<close>

lemma tree_all_update:
  "(\<And>x. tree_all Q x \<Longrightarrow> tree_all Q (f x)) \<Longrightarrow> (\<forall>x \<in> set xs. tree_all Q x) \<Longrightarrow>
     \<forall>x \<in> set (update_at p f xs). tree_all Q x"
  "(\<And>x. tree_all Q x \<Longrightarrow> tree_all Q (f x)) \<Longrightarrow> tree_all Q y \<Longrightarrow>
     tree_all Q (update_in p f y)"
proof (induction p f xs and p f y rule: update_at_update_in.induct)
  case (1 f xs)
  then show ?case by simp
next
  case (2 i p f xs)
  show ?case
  proof (cases "i < length xs")
    case True
    with 2 have "tree_all Q (update_in p f (xs ! i))" by simp
    with 2(3) True show ?thesis
      using set_update_subset_insert [of xs i] by auto
  next
    case False
    with 2 show ?thesis by simp
  qed
next
  case (3 f x)
  then show ?case by simp
next
  case (4 i p f a w args)
  then show ?case by simp
qed

lemma qt_flags_update:
  "(\<And>pe sel x. qt_flags pe sel x \<Longrightarrow> qt_flags pe sel (f x)) \<Longrightarrow>
     refresh_Or pe rbs xs = xs \<Longrightarrow> refresh_Or pe rbs (update_at p f xs) = update_at p f xs"
  "(\<And>pe sel x. qt_flags pe sel x \<Longrightarrow> qt_flags pe sel (f x)) \<Longrightarrow>
     qt_flags pe sel y \<Longrightarrow> qt_flags pe sel (update_in p f y)"
proof (induction p f xs and p f y arbitrary: pe rbs and pe sel rule: update_at_update_in.induct)
  case (1 f xs)
  then show ?case by simp
next
  case (2 i p f xs)
  show ?case
  proof (cases "i < length xs")
    case True
    let ?s = "if i < length rbs then rbs ! i else True"
    from 2(3) True have "qt_flags pe ?s (xs ! i)"
      using refresh_Or_nth [OF True, of pe rbs] by (simp add: qt_flags_def)
    from 2(1) [OF True 2(2) this]
    have "refresh pe ?s (update_in p f (xs ! i)) = update_in p f (xs ! i)"
      by (simp add: qt_flags_def)
    with 2(3) True show ?thesis by (simp add: refresh_Or_update)
  next
    case False
    with 2 show ?thesis by simp
  qed
next
  case (3 f x)
  then show ?case by simp
next
  case (4 i p f a wo args)
  show ?case
  proof (cases wo)
    case None
    then show ?thesis by (simp add: qt_flags_def)
  next
    case (Some w)
    have a: "refresh_Or q rs (update_at (i # p) f args) = update_at (i # p) f args"
      if "refresh_Or q rs args = args" for q rs
      using 4(1) [OF 4(2) that] .
    have b: "map (refresh q True) (update_at (i # p) f args) = update_at (i # p) f args"
      if "map (refresh q True) args = args" for q
      using a [of q "[]"] that by (simp only: refresh_Or_Nil)
    from 4(3) Some show ?thesis
      by (auto simp: qt_flags_def widget_flags_fix a b simp del: update_at.simps split: if_splits)
  qed
qed

lemma toggled_slots_length [simp]: "length (toggled_slots pe rs rs' xs) = length xs"
  by (induction pe rs rs' xs rule: toggled_slots.induct) simp_all

lemma toggled_slots_fix:
  "refresh_Or pe rs xs = xs \<Longrightarrow> length rs' = length rs \<Longrightarrow>
     refresh_Or pe rs' (toggled_slots pe rs rs' xs) = toggled_slots pe rs rs' xs"
proof (induction pe rs rs' xs rule: toggled_slots.induct)
  case (1 pe r rs r' rs' x xs)
  from "1.prems" have x: "qt_flags pe r x" and xs: "refresh_Or pe rs xs = xs"
    by (simp_all add: qt_flags_def)
  have "refresh pe r' (if r \<noteq> r' then setEnabled pe r' x else x)
          = (if r \<noteq> r' then setEnabled pe r' x else x)"
    using setEnabled_fix [OF x, of r'] x by (auto simp: qt_flags_def)
  with "1.IH" [OF xs] "1.prems"(2) show ?case by simp
qed auto

lemma toggled_slots_tree_all:
  assumes "\<And>a w n e e'. Q a (Some (w\<lparr>isEnabled := e, w_isEnabled := e'\<rparr>)) n = Q a (Some w) n"
  shows "(\<forall>x \<in> set xs. tree_all Q x) \<Longrightarrow> \<forall>x \<in> set (toggled_slots pe rs rs' xs). tree_all Q x"
  by (induction pe rs rs' xs rule: toggled_slots.induct)
    (simp_all add: tree_all_setEnabled [where Q = Q, OF assms])

lemma count_none: "n \<le> j \<Longrightarrow> filter id (map (\<lambda>i. i = j) [0..<n]) = []"
  by (induction n) auto

lemma count_one: "j < n \<Longrightarrow> length (filter id (map (\<lambda>i. i = j) [0..<n])) = 1"
proof (induction n)
  case 0
  then show ?case by simp
next
  case (Suc n)
  show ?case
  proof (cases "j = n")
    case True
    then show ?thesis by (simp add: count_none)
  next
    case False
    with Suc show ?thesis by simp
  qed
qed

text \<open>Each event keeps the flags that Qt computes.\<close>

lemma rb_clicked_flags: "qt_flags pe sel x \<Longrightarrow> qt_flags pe sel (rb_clicked j x)"
proof (cases x)
  case (Argument a wo args)
  assume q: "qt_flags pe sel x"
  show ?thesis
  proof (cases wo)
    case None
    with Argument q show ?thesis by simp
  next
    case (Some w)
    show ?thesis
    proof (cases "is_or (wform w) \<and> isEnabled w \<and> j < length (rb w) \<and> \<not> rb w ! j")
      case False
      with Argument Some q show ?thesis by auto
    next
      case True
      with q Argument Some have e: "isEnabled w = (pe \<and> sel)"
        and kids: "refresh_Or (pe \<and> sel) (rb w) args = args"
        by (auto simp: qt_flags_def widget_flags_fix is_or_def is_box_def)
      let ?rb = "map (\<lambda>i. i = j) [0..<length (rb w)]"
      have "refresh_Or (pe \<and> sel) ?rb (toggled_slots (pe \<and> sel) (rb w) ?rb args)
              = toggled_slots (pe \<and> sel) (rb w) ?rb args"
        by (rule toggled_slots_fix [OF kids]) simp
      with True e Argument Some show ?thesis
        by (auto simp: qt_flags_def widget_flags_fix is_or_def is_box_def)
    qed
  qed
qed

lemma gbox_clicked_flags: "qt_flags pe sel x \<Longrightarrow> qt_flags pe sel (gbox_clicked x)"
proof (cases x)
  case (Argument a wo args)
  assume q: "qt_flags pe sel x"
  show ?thesis
  proof (cases wo)
    case None
    with Argument q show ?thesis by simp
  next
    case (Some w)
    show ?thesis
    proof (cases "wform w = Group \<and> w_isEnabled w")
      case False
      with Argument Some q show ?thesis by auto
    next
      case True
      with q Argument Some have e: "isEnabled w = (pe \<and> sel)" "w_isEnabled w = (pe \<and> sel)"
        by (auto simp: qt_flags_def widget_flags_fix)
      with True Argument Some show ?thesis
        by (auto simp: qt_flags_def widget_flags_fix refresh_refresh)
    qed
  qed
qed

lemma checkbox_clicked_flags: "qt_flags pe sel x \<Longrightarrow> qt_flags pe sel (checkbox_clicked x)"
proof (cases x)
  case (Argument a wo args)
  assume q: "qt_flags pe sel x"
  show ?thesis
  proof (cases wo)
    case None
    with Argument q show ?thesis by simp
  next
    case (Some w)
    with Argument q show ?thesis
      by (auto simp: qt_flags_def widget_flags_fix is_or_def is_box_def)
  qed
qed

lemma edited_flags: "qt_flags pe sel x \<Longrightarrow> qt_flags pe sel (edited s x)"
proof (cases x)
  case (Argument a wo args)
  assume q: "qt_flags pe sel x"
  show ?thesis
  proof (cases wo)
    case None
    with Argument q show ?thesis by simp
  next
    case (Some w)
    with Argument q show ?thesis
      by (auto simp: qt_flags_def widget_flags_fix is_or_def is_box_def is_ArgumentWidget_def
          split: if_splits)
  qed
qed

lemma step_flags:
  assumes "refresh_Or pe rbs t = t"
  shows "refresh_Or pe rbs (step t ev) = step t ev"
proof (cases ev)
  case (RadioClicked p j)
  with assms show ?thesis by (simp add: qt_flags_update(1) rb_clicked_flags)
next
  case (GroupBoxClicked p)
  with assms show ?thesis by (simp add: qt_flags_update(1) gbox_clicked_flags)
next
  case (CheckBoxClicked p)
  with assms show ?thesis by (simp add: qt_flags_update(1) checkbox_clicked_flags)
next
  case (Edited p s)
  with assms show ?thesis by (simp add: qt_flags_update(1) edited_flags)
qed

lemma run_flags:
  "map (refresh True True) t = t \<Longrightarrow> map (refresh True True) (run t es) = run t es"
proof (induction es arbitrary: t)
  case Nil
  then show ?case by (simp add: run_def)
next
  case (Cons ev es)
  from Cons.prems have "map (refresh True True) (step t ev) = step t ev"
    using step_flags [of True "[]" t ev] by (simp add: refresh_Or_Nil)
  from Cons.IH [OF this] show ?case by (simp add: run_def)
qed

lemma count_one_filter: "j < n \<Longrightarrow> length (filter (\<lambda>i. i = j) [0..<n]) = Suc 0"
  using count_one [of j n] by (simp add: filter_map comp_def)

lemma tree_all_mono:
  assumes "\<And>a wo n. Q a wo n \<Longrightarrow> Q' a wo n"
  shows "tree_all Q x \<Longrightarrow> tree_all Q' x"
  by (induction x) (auto simp: assms)

lemma first_selected_exclusive:
  assumes "first_selected x" and "groups_unchecked x"
  shows "exclusive_ok x \<and> tree_all has_widget x"
proof -
  have "one_checked a wo n" if "first_checked a wo n" for a wo n
    using that by (auto simp: one_checked_def first_checked_def count_one_filter split: option.splits)
  from tree_all_mono [where Q = first_checked and Q' = one_checked, OF this] assms(1)
  have "exclusive_ok x" by (simp add: exclusive_ok_def first_selected_def)
  moreover have "has_widget a wo n" if "box_unchecked a wo n" for a wo n
    using that by (cases wo) (simp_all add: has_widget_def box_unchecked_def)
  from tree_all_mono [where Q = box_unchecked and Q' = has_widget, OF this] assms(2)
  have "tree_all has_widget x" by (simp add: groups_unchecked_def)
  ultimately show ?thesis by simp
qed

text \<open>A predicate on the tree that the events keep.\<close>

lemma event_tree_all:
  assumes flags: "\<And>a w n e e'. Q a (Some (w\<lparr>isEnabled := e, w_isEnabled := e'\<rparr>)) n = Q a (Some w) n"
    and radio: "\<And>a w n j. is_or (wform w) \<Longrightarrow> j < length (rb w) \<Longrightarrow> Q a (Some w) n \<Longrightarrow>
        Q a (Some (w\<lparr>rb := map (\<lambda>i. i = j) [0..<length (rb w)]\<rparr>)) n"
    and check: "\<And>a w n c. wform w = Group \<or> wform w = Bool \<Longrightarrow> Q a (Some w) n \<Longrightarrow>
        Q a (Some (w\<lparr>isChecked := c\<rparr>)) n"
    and edit: "\<And>a w n s. is_ArgumentWidget (wform w) \<Longrightarrow> Q a (Some w) n \<Longrightarrow>
        Q a (Some (w\<lparr>ct := s\<rparr>)) n"
    and x: "tree_all Q x"
  shows "tree_all Q (rb_clicked j x)" "tree_all Q (gbox_clicked x)"
    "tree_all Q (checkbox_clicked x)" "tree_all Q (edited s x)"
proof -
  obtain a wo args where xa: "x = Argument a wo args" by (cases x)
  show "tree_all Q (rb_clicked j x)"
  proof (cases wo)
    case None
    with x xa show ?thesis by simp
  next
    case (Some w)
    from x xa have "\<forall>y \<in> set args. tree_all Q y" by simp
    from toggled_slots_tree_all [where Q = Q, OF flags this]
    have "\<forall>y \<in> set (toggled_slots pe rs rs' args). tree_all Q y" for pe rs rs' .
    with x xa Some radio [of w j a "length args"] show ?thesis by auto
  qed
  show "tree_all Q (gbox_clicked x)"
  proof (cases wo)
    case None
    with x xa show ?thesis by simp
  next
    case (Some w)
    with x xa check [of w a "length args" "\<not> isChecked w"] show ?thesis
      by (auto simp: tree_all_refresh [where Q = Q, OF flags])
  qed
  show "tree_all Q (checkbox_clicked x)"
  proof (cases wo)
    case None
    with x xa show ?thesis by simp
  next
    case (Some w)
    with x xa check [of w a "length args" "\<not> isChecked w"] show ?thesis by auto
  qed
  show "tree_all Q (edited s x)"
  proof (cases wo)
    case None
    with x xa show ?thesis by simp
  next
    case (Some w)
    with x xa edit [of w a "length args" s] show ?thesis by auto
  qed
qed

lemma step_tree_all:
  assumes flags: "\<And>a w n e e'. Q a (Some (w\<lparr>isEnabled := e, w_isEnabled := e'\<rparr>)) n = Q a (Some w) n"
    and radio: "\<And>a w n j. is_or (wform w) \<Longrightarrow> j < length (rb w) \<Longrightarrow> Q a (Some w) n \<Longrightarrow>
        Q a (Some (w\<lparr>rb := map (\<lambda>i. i = j) [0..<length (rb w)]\<rparr>)) n"
    and check: "\<And>a w n c. wform w = Group \<or> wform w = Bool \<Longrightarrow> Q a (Some w) n \<Longrightarrow>
        Q a (Some (w\<lparr>isChecked := c\<rparr>)) n"
    and edit: "\<And>a w n s. is_ArgumentWidget (wform w) \<Longrightarrow> Q a (Some w) n \<Longrightarrow>
        Q a (Some (w\<lparr>ct := s\<rparr>)) n"
    and t: "\<forall>x \<in> set t. tree_all Q x"
  shows "\<forall>x \<in> set (step t ev). tree_all Q x"
proof (cases ev)
  case (RadioClicked p j)
  have "tree_all Q x \<Longrightarrow> tree_all Q (rb_clicked j x)" for x
    by (rule event_tree_all(1) [where Q = Q, OF flags radio check edit])
  from tree_all_update(1) [where Q = Q and f = "rb_clicked j", OF this t] show ?thesis
    by (simp add: RadioClicked)
next
  case (GroupBoxClicked p)
  have "tree_all Q x \<Longrightarrow> tree_all Q (gbox_clicked x)" for x
    by (rule event_tree_all(2) [where Q = Q, OF flags radio check edit])
  from tree_all_update(1) [where Q = Q and f = "gbox_clicked", OF this t] show ?thesis
    by (simp add: GroupBoxClicked)
next
  case (CheckBoxClicked p)
  have "tree_all Q x \<Longrightarrow> tree_all Q (checkbox_clicked x)" for x
    by (rule event_tree_all(3) [where Q = Q, OF flags radio check edit])
  from tree_all_update(1) [where Q = Q and f = "checkbox_clicked", OF this t] show ?thesis
    by (simp add: CheckBoxClicked)
next
  case (Edited p s)
  have "tree_all Q x \<Longrightarrow> tree_all Q (edited s x)" for x
    by (rule event_tree_all(4) [where Q = Q, OF flags radio check edit])
  from tree_all_update(1) [where Q = Q and f = "edited s", OF this t] show ?thesis
    by (simp add: Edited)
qed

lemma step_exclusive:
  assumes "\<forall>x \<in> set t. exclusive_ok x"
  shows "\<forall>x \<in> set (step t ev). exclusive_ok x"
  unfolding exclusive_ok_def
proof (rule step_tree_all)
  show "\<forall>x \<in> set t. tree_all one_checked x"
    using assms by (simp add: exclusive_ok_def)
qed (simp_all add: one_checked_def count_one_filter is_ArgumentWidget_def is_or_def split: if_splits)

lemma step_has_widget:
  assumes "\<forall>x \<in> set t. tree_all has_widget x"
  shows "\<forall>x \<in> set (step t ev). tree_all has_widget x"
  by (rule step_tree_all) (use assms in \<open>simp_all add: has_widget_def\<close>)

lemma run_Cons: "run t (ev # es) = run (step t ev) es"
  by (simp add: run_def)

lemma run_invariant:
  assumes "\<And>t ev. P t \<Longrightarrow> P (step t ev)" and "P t"
  shows "P (run t es)"
  using assms(2)
proof (induction es arbitrary: t)
  case Nil
  then show ?case by (simp add: run_def)
next
  case (Cons ev es)
  from Cons.IH [OF assms(1) [OF Cons.prems]] show ?case by (simp add: run_Cons)
qed

subsection \<open>The sessions of the dialog\<close>

text \<open>
  In the session that \<^verbatim>\<open>build_widgets\<close> makes and in every session that the events lead
  to, every argument has its widget, the flags are those that Qt computes, and every
  \<open>Or\<close> group has exactly one radio button checked.
\<close>

lemma session_invariant:
  assumes "build_widgets KWT fv g = Inr t"
  shows "\<forall>x \<in> set (run t es). qt_flags True True x \<and> exclusive_ok x \<and> tree_all has_widget x"
proof -
  from build_fresh(2) [OF assms] have
    f: "\<forall>y \<in> set t. qt_flags True True y \<and> first_selected y \<and> groups_unchecked y" by simp
  then have "map (refresh True True) t = t" by (simp add: map_fix_iff qt_flags_def)
  from run_flags [OF this] have "\<forall>x \<in> set (run t es). qt_flags True True x"
    by (simp add: map_fix_iff qt_flags_def)
  moreover from f have "\<forall>x \<in> set t. exclusive_ok x" "\<forall>x \<in> set t. tree_all has_widget x"
    using first_selected_exclusive by blast+
  then have "\<forall>x \<in> set (run t es). exclusive_ok x" "\<forall>x \<in> set (run t es). tree_all has_widget x"
    using run_invariant [where P = "\<lambda>t. \<forall>x \<in> set t. exclusive_ok x", OF step_exclusive]
      run_invariant [where P = "\<lambda>t. \<forall>x \<in> set t. tree_all has_widget x", OF step_has_widget]
    by blast+
  ultimately show ?thesis by blast
qed

lemma qt_flags_child:
  assumes "qt_flags pe sel (Argument a (Some w) args)" and "x \<in> set args"
  shows "\<exists>pe' sel'. qt_flags pe' sel' x"
proof -
  from assms(2) obtain i where i: "i < length args" "args ! i = x"
    by (auto simp: in_set_conv_nth)
  from assms(1) consider
    (box) q where "map (refresh q True) args = args"
    | (alt) q where "refresh_Or q (rb w) args = args"
    by (auto simp: qt_flags_def split: if_splits)
  then show ?thesis
  proof cases
    case box
    with assms(2) have "qt_flags q True x" by (simp add: map_fix_iff qt_flags_def)
    then show ?thesis by blast
  next
    case alt
    with refresh_Or_nth [OF i(1), of q "rb w"] i(2)
    have "qt_flags q (if i < length (rb w) then rb w ! i else True) x"
      by (simp add: qt_flags_def)
    then show ?thesis by blast
  qed
qed

lemma qt_flags_nodes:
  "tree_all has_widget x \<Longrightarrow> qt_flags pe sel x \<Longrightarrow> n \<in> set (nodes x) \<Longrightarrow>
     \<exists>pe' sel'. qt_flags pe' sel' n"
proof (induction x arbitrary: pe sel)
  case (Argument a wo args)
  from Argument.prems(1) obtain w where w: "wo = Some w" by (auto simp: has_widget_def)
  from Argument.prems(3) consider "n = Argument a wo args"
    | y where "y \<in> set args" "n \<in> set (nodes y)" by auto
  then show ?case
  proof cases
    case 1
    with Argument.prems(2) show ?thesis by blast
  next
    case 2
    from qt_flags_child [OF Argument.prems(2) [unfolded w] 2(1)]
    obtain q s where "qt_flags q s y" by blast
    from Argument.IH [OF 2(1) _ this 2(2)] Argument.prems(1) 2(1) show ?thesis by simp
  qed
qed

lemma session_nodes_flags:
  assumes "build_widgets KWT fv g = Inr t" and "n \<in> set (all_nodes (run t es))"
  shows "\<exists>pe sel. qt_flags pe sel n"
proof -
  from assms(2) obtain x where x: "x \<in> set (run t es)" "n \<in> set (nodes x)"
    by (auto simp: all_nodes_def)
  from session_invariant [OF assms(1), of es] x(1)
  have "qt_flags True True x" "tree_all has_widget x" by simp_all
  from qt_flags_nodes [OF this(2) this(1) x(2)] show ?thesis .
qed

lemma run_built_run:
  "build_widgets (\<lambda>u. []) None g = Inr t \<Longrightarrow> run_built g es = run t es"
  by (simp add: run_built_def)

lemma built_required_in_group:
  "build_widgets (\<lambda>u. []) None required_in_group
     = Inr [Argument G_attrs (Some (fresh Group)) [X_disabled]]"
  by (simp add: required_in_group_def group_def leaf_def G_attrs_def X_disabled_def
      init_widget_def fresh_def is_box_def is_or_def)

lemma built_file_or_line:
  "build_widgets (\<lambda>u. []) None file_or_line
     = Inr [Argument
         \<lparr>name = [], form = Some VOr, use = [], value_a = [], required = False,
          newline = False\<rparr>
         (Some ((fresh VOr)\<lparr>rb := [True, False]\<rparr>))
         [Argument
            \<lparr>name = ''A'', form = Some Line, use = [], value_a = [], required = False,
             newline = False\<rparr>
            (Some (fresh Line)) [],
          Argument
            \<lparr>name = ''INPUT'', form = Some SelectFileWidget, use = [], value_a = [],
             required = False, newline = False\<rparr>
            (Some ((fresh SelectFileWidget)\<lparr>w_isEnabled := False\<rparr>)) []]]"
  by (simp add: file_or_line_def group_def leaf_def init_widget_def fresh_def is_box_def
      is_or_def)

subsection \<open>A disabled group\<close>

text \<open>
  C4. Let the flags of a \<open>Group\<close> and of the widgets in it be those that Qt computes (as
  they are in every session of the dialog, by \<open>session_nodes_flags\<close>), and let the group
  box be unchecked or disabled. Then the loop of \<^verbatim>\<open>change\<close> over the arguments nested in
  the group, at any depth, leaves the text as it was, and so does the pass for the group
  itself: nothing is generated for the group nor for anything in it, whatever the values,
  the check boxes and the \<^verbatim>\<open>required\<close> flags of the nested arguments are.
\<close>

theorem C4_disabled_group_silent:
  assumes "qt_flags pe sel (Argument a (Some w) args)"
    and "wform w = Group"
    and "\<not> (isEnabled w \<and> isChecked w)"
  shows "change_for args old_value = (old_value, None)
         \<and> change_arg (Argument a (Some w) args) old_value = (old_value, None)"
proof -
  from assms(1,2) have en: "isEnabled w = (pe \<and> sel)" "w_isEnabled w = (pe \<and> sel)"
    and fixed: "map (refresh (pe \<and> sel \<and> isChecked w) True) args = args"
    by (simp_all add: qt_flags_def widget_flags_fix)
  from en assms(3) have off: "(pe \<and> sel \<and> isChecked w) = False" by auto
  from fixed off have kids: "refresh False True x = x" if "x \<in> set args" for x
    using that by (simp add: map_fix_iff)
  have silent: "change_for args t = (t, None)" for t
  proof (rule change_for_silent)
    fix x old
    assume "x \<in> set args"
    then have "change_arg x old = change_arg (refresh False True x) old"
      by (simp add: kids)
    then show "change_arg x old = (old, None)" by (simp add: disabled_silent)
  qed
  have own: "new_value a w = Inr []"
    using assms(2,3) en by (auto simp: new_value_def widget_text_def Group_text_def)
  from silent own show ?thesis by (simp add: cut_separator_def)
qed

theorem C4_disabled_group_silent_witness:
  "qt_flags True True (Argument G_attrs (Some (fresh Group)) [X_disabled])
   \<and> wform (fresh Group) = Group
   \<and> \<not> (isEnabled (fresh Group) \<and> isChecked (fresh Group))
   \<and> change_for [X_disabled] ''*K'' = (''*K'', None)
   \<and> change_arg (Argument G_attrs (Some (fresh Group)) [X_disabled]) ''*K'' = (''*K'', None)"
proof -
  have h1: "qt_flags True True (Argument G_attrs (Some (fresh Group)) [X_disabled])"
    by (simp add: qt_flags_def X_disabled_def fresh_def is_box_def is_or_def)
  have h2: "wform (fresh Group) = Group" by simp
  have h3: "\<not> (isEnabled (fresh Group) \<and> isChecked (fresh Group))" by simp
  from C4_disabled_group_silent [OF h1 h2 h3, of "''*K''"] h1 h2 h3 show ?thesis by simp
qed

subsection \<open>Exclusive alternatives\<close>

text \<open>
  C6. When the dialog opens, every \<open>Or\<close> group has its first radio button checked and
  no other. After any sequence of events (clicks on radio buttons among them) every \<open>Or\<close>
  group with nested arguments has one radio button for each of them and exactly one of
  the buttons is checked, never none and never two; the flags of the widgets are those
  that Qt computes from the radio buttons, so the nested argument of the checked button
  is the one that is left enabled.
\<close>

theorem C6_one_alternative:
  assumes "build_widgets KWT fv g = Inr t"
  shows "(\<forall>x \<in> set t. first_selected x)
         \<and> (\<forall>x \<in> set (run t es). exclusive_ok x \<and> qt_flags True True x)"
  using build_fresh(2) [OF assms] session_invariant [OF assms, of es] by blast

theorem C6_one_alternative_witness:
  "list_all first_selected (run_built file_or_line [])
   \<and> list_all exclusive_ok (run_built file_or_line [RadioClicked [0] 1])
   \<and> list_all (qt_flags True True) (run_built file_or_line [RadioClicked [0] 1])
   \<and> map (map_option rb \<circ> widget) (run_built file_or_line []) = [Some [True, False]]
   \<and> map (map_option rb \<circ> widget) (run_built file_or_line [RadioClicked [0] 1])
       = [Some [False, True]]
   \<and> map (map (map_option w_isEnabled \<circ> widget) \<circ> arguments)
        (run_built file_or_line [RadioClicked [0] 1]) = [[Some False, Some True]]"
proof -
  note b = built_file_or_line
  have r0: "map (map_option rb \<circ> widget) (run_built file_or_line []) = [Some [True, False]]"
    by (simp add: run_built_run [OF b] run_def)
  have r1: "map (map_option rb \<circ> widget) (run_built file_or_line [RadioClicked [0] 1])
      = [Some [False, True]]"
    by (simp add: run_built_run [OF b] run_def is_or_def is_box_def)
  have r2: "map (map (map_option w_isEnabled \<circ> widget) \<circ> arguments)
        (run_built file_or_line [RadioClicked [0] 1]) = [[Some False, Some True]]"
    by (simp add: run_built_run [OF b] run_def is_or_def is_box_def)
  from C6_one_alternative [OF b, of "[RadioClicked [0] 1]"] r0 r1 r2 show ?thesis
    by (simp add: run_built_run [OF b, symmetric] list_all_iff run_built_def b run_def)
qed

subsection \<open>The session when the dialog opens\<close>

text \<open>
  C8, as the code has it. When the dialog opens, the group box of every \<open>Group\<close> is
  unchecked, with no exception for a group that holds a required argument; the check box
  of a \<open>Bool\<close> is checked when the argument is required and only then; every \<open>Or\<close> group
  has its first radio button checked and no other.
\<close>

theorem C8_groups_unchecked:
  assumes "build_widgets KWT fv g = Inr t"
  shows "\<forall>x \<in> set t. groups_unchecked x \<and> first_selected x"
  using build_fresh(2) [OF assms] by blast

theorem C8_groups_unchecked_witness:
  "build_widgets (\<lambda>u. []) None required_in_group
     = Inr [Argument G_attrs (Some (fresh Group)) [X_disabled]]
   \<and> groups_unchecked (Argument G_attrs (Some (fresh Group)) [X_disabled])
   \<and> first_selected (Argument G_attrs (Some (fresh Group)) [X_disabled])"
  using C8_groups_unchecked [OF built_required_in_group] built_required_in_group by simp

text \<open>
  The group of \<open>required_in_group\<close> holds a required argument, and its group box is
  unchecked when the dialog opens: nothing enables a group for the sake of a required
  argument in it.
\<close>

theorem C8_required_leaf_counterexample:
  "map (\<lambda>x. (map_option isChecked (widget x), map (required \<circ> attrs) (arguments x)))
     (run_built required_in_group []) = [(Some False, [True])]"
  by (simp add: run_built_run [OF built_required_in_group] run_def X_disabled_def)

subsection \<open>Validation\<close>











subsection \<open>Generation is a function of the session\<close>






subsection \<open>The placeholder of a combo box\<close>

text \<open>
  C10. An argument widget whose current text begins with \<^verbatim>\<open>!!! Create *\<close> adds nothing
  to the text: \<^verbatim>\<open>change\<close> goes on to its nested arguments with the text as it was. The
  placeholder that \<open>Combo\<close> inserts for a keyword \<^verbatim>\<open>*k\<close> without implementations begins
  so.
\<close>

theorem C10_placeholder_silent:
  assumes "wform w = Combo \<or> wform w = Text \<or> wform w = Line \<or> wform w = Int'
      \<or> wform w = Float"
    and "startswith (ct w) ''!!! Create *''"
  shows "new_value a w = Inr []
         \<and> change_arg (Argument a (Some w) args) old_value = change_for args old_value
         \<and> startswith (''!!! Create '' @ (CHR ''*'' # k) @ '' first !!!'') ''!!! Create *''"
proof -
  from assms have "widget_text a w = Inr []"
    by (auto simp: widget_text_def ArgumentWidget_text_def Let_def)
  then have "new_value a w = Inr []" by (simp add: new_value_def)
  then show ?thesis by (simp add: cut_separator_def startswith_def)
qed

theorem C10_placeholder_silent_witness:
  "(wform ((fresh Combo)\<lparr>ct := ''!!! Create *SURFACE first !!!''\<rparr>) = Combo
      \<or> wform ((fresh Combo)\<lparr>ct := ''!!! Create *SURFACE first !!!''\<rparr>) = Text)
   \<and> startswith (ct ((fresh Combo)\<lparr>ct := ''!!! Create *SURFACE first !!!''\<rparr>)) ''!!! Create *''
   \<and> ''!!! Create *SURFACE first !!!'' \<in> set (Combo_items no_implementations surface_reference)
   \<and> new_value surface_reference ((fresh Combo)\<lparr>ct := ''!!! Create *SURFACE first !!!''\<rparr>)
       = Inr []
   \<and> change_arg
        (Argument surface_reference
           (Some ((fresh Combo)\<lparr>ct := ''!!! Create *SURFACE first !!!''\<rparr>)) [])
        ''*TIE'' = (''*TIE'', None)"
proof -
  let ?w = "(fresh Combo)\<lparr>ct := ''!!! Create *SURFACE first !!!''\<rparr>"
  have h1: "wform ?w = Combo \<or> wform ?w = Text \<or> wform ?w = Line \<or> wform ?w = Int'
      \<or> wform ?w = Float" by (simp add: fresh_def)
  have h2: "startswith (ct ?w) ''!!! Create *''" by (simp add: startswith_def)
  have h3: "''!!! Create *SURFACE first !!!''
      \<in> set (Combo_items no_implementations surface_reference)"
    by (simp add: Combo_items_def no_implementations_def surface_reference_def)
  note c = C10_placeholder_silent [OF h1 h2, of surface_reference "[]" "''*TIE''" "[]"]
  from c have n: "new_value surface_reference ?w = Inr []" by blast
  from c have "change_arg (Argument surface_reference (Some ?w) []) ''*TIE''
      = change_for [] ''*TIE''" by blast
  also have "change_for [] ''*TIE'' = (''*TIE'', None)" by simp
  finally have ch: "change_arg (Argument surface_reference (Some ?w) []) ''*TIE''
      = (''*TIE'', None)" .
  from h1 have h1': "wform ?w = Combo \<or> wform ?w = Text" by (simp add: fresh_def)
  from h1' h2 h3 n ch show ?thesis by blast
qed

subsection \<open>The items of a combo box\<close>

text \<open>
  C7, as the code has it. For an argument that refers to a keyword and has no list of
  values, \<^verbatim>\<open>build_widgets\<close> makes a \<open>Combo\<close> whose items are an empty item, followed by
  the names of the implementations of the keyword in the order of
  \<^verbatim>\<open>KWT.get_implementations\<close>, or by the placeholder when there is no implementation;
  the combo box shows the empty item.
\<close>

theorem C7_combo_items:
  assumes "use a \<noteq> []" and "value_a a = []"
    and "build_one KWT fv (Argument a w0 args) = Inr (f, x)"
  shows "f = Combo
         \<and> map_option items (widget x)
             = Some ([] # (if KWT (use a) = []
                           then [''!!! Create '' @ use a @ '' first !!!'']
                           else KWT (use a)))
         \<and> map_option ct (widget x) = Some []"
  using assms
  by (auto simp: is_box_def is_or_def init_widget_def Combo_items_def first_item_def
      split: sum.splits)

theorem C7_combo_items_witness:
  "use surface_reference \<noteq> [] \<and> value_a surface_reference = []
   \<and> build_one two_surfaces None (Argument surface_reference None [])
       = Inr (Combo, Argument surface_reference
           (Some ((fresh Combo)\<lparr>items := [[], ''S1'', ''S2'']\<rparr>)) [])
   \<and> map_option items
        (widget (Argument surface_reference
           (Some ((fresh Combo)\<lparr>items := [[], ''S1'', ''S2'']\<rparr>)) []))
       = Some [[], ''S1'', ''S2'']"
proof -
  have h1: "use surface_reference \<noteq> []" and h2: "value_a surface_reference = []"
    by (simp_all add: surface_reference_def)
  have h3: "build_one two_surfaces None (Argument surface_reference None [])
       = Inr (Combo, Argument surface_reference
           (Some ((fresh Combo)\<lparr>items := [[], ''S1'', ''S2'']\<rparr>)) [])"
    by (simp add: surface_reference_def two_surfaces_def is_box_def is_or_def init_widget_def
        Combo_items_def first_item_def fresh_def)
  from C7_combo_items [OF h1 h2 h3] h1 h2 h3 show ?thesis by simp
qed

text \<open>
  With the implementations \<open>S1\<close> and \<open>S2\<close> the items are not \<open>S1\<close>, \<open>S2\<close> alone: the empty
  item comes first. With no implementation the list is not empty: it holds the empty item
  and the placeholder.
\<close>

theorem C7_blank_and_placeholder_counterexample:
  "Combo_items two_surfaces surface_reference = [[], ''S1'', ''S2'']
   \<and> Combo_items no_implementations surface_reference = [[], ''!!! Create *SURFACE first !!!'']"
  by (simp add: Combo_items_def two_surfaces_def no_implementations_def surface_reference_def)

subsection \<open>Arguments that add nothing\<close>

text \<open>
  An argument widget with the method \<^verbatim>\<open>ArgumentWidget.text\<close> or \<^verbatim>\<open>Bool.text\<close> adds
  nothing when it or its control is disabled, when its text is empty, or when its check
  box is unchecked. A file selector adds nothing when the widget is disabled or the text
  is empty.
\<close>

lemma silent_leaf:
  assumes "wform w = Combo \<or> wform w = Text \<or> wform w = Line \<or> wform w = Int'
      \<or> wform w = Float \<or> wform w = Bool"
    and "\<not> isEnabled w \<or> \<not> w_isEnabled w \<or> (wform w \<noteq> Bool \<and> ct w = [])
      \<or> (wform w = Bool \<and> \<not> isChecked w)"
  shows "new_value a w = Inr []"
  using assms
  by (auto simp: new_value_def widget_text_def ArgumentWidget_text_def Bool_text_def)

lemma silent_file: "\<not> isEnabled w \<or> ct w = [] \<Longrightarrow> wform w = SelectFileWidget \<Longrightarrow>
    new_value a w = Inr []"
  by (auto simp: new_value_def widget_text_def)

text \<open>
  C2 fails for the file selector: \<^verbatim>\<open>SelectFileWidget\<close> replaces \<^verbatim>\<open>text\<close> by the text of
  its line edit, which does not look at \<^verbatim>\<open>isEnabled()\<close>. The user chooses the file
  alternative of an \<open>Or\<close> group, enters \<open>f.inp\<close> and goes back to the first alternative:
  the line edit of the file selector is disabled, and its text is still generated.
\<close>

theorem C2_disabled_file_is_generated:
  "map (map (map_option (\<lambda>w. (isEnabled w, w_isEnabled w, ct w)) \<circ> widget) \<circ> arguments)
     (run_built file_or_line [RadioClicked [0] 1, Edited [0, 1] ''f.inp'', RadioClicked [0] 0])
     = [[Some (True, True, []), Some (True, False, ''f.inp'')]]
   \<and> change
       (keyword ''*INCLUDE''
          (run_built file_or_line
             [RadioClicked [0] 1, Edited [0, 1] ''f.inp'', RadioClicked [0] 0]))
       [] () [] False
     = (''*INCLUDEf.inp'', None)"
  by (simp add: run_built_run [OF built_file_or_line] run_def is_or_def is_box_def fresh_def
      is_ArgumentWidget_def keyword_def change_def new_value_def widget_text_def
      ArgumentWidget_text_def GroupWidget_text_def cut_separator_def startswith_def
      endswith_def nl_def)

end
